theory Spec2Isabelle
  imports Main "HOL-Library.Sublist" "HOL-Library.Char_ord" "HOL-Library.List_Lexorder"
begin

section \<open>Python values shared by the completers\<close>

text \<open>
  A Python \<open>str\<close> is a sequence of code points. It is modelled as a list over a
  character type \<open>'c\<close>: \<open>char\<close> (so \<open>string\<close>) where only ASCII structure matters, as
  in the path completer, and \<open>nat\<close> code points where Unicode case mapping matters.
\<close>

text \<open>
  The exceptions that can occur in \<open>questionary/completer.py\<close> and
  \<open>questionary/prompts/text.py\<close>. \<open>PermissionError\<close>, \<open>FileNotFoundError\<close> and
  \<open>NotADirectoryError\<close> are subclasses of \<open>OSError\<close>; \<open>re_error\<close> is \<open>re.error\<close>.
  A caller-supplied function can raise any of them, \<open>StopIteration\<close> included.
\<close>

datatype pyexc =
    OSError | PermissionError | FileNotFoundError | NotADirectoryError
  | TypeError | AssertionError | ValueError | KeyError | re_error
  | StopIteration | RuntimeError

text \<open>\<open>isinstance(e, OSError)\<close>: what the clause \<open>except OSError\<close> catches.\<close>

fun is_OSError :: "pyexc \<Rightarrow> bool" where
  "is_OSError OSError = True"
| "is_OSError PermissionError = True"
| "is_OSError FileNotFoundError = True"
| "is_OSError NotADirectoryError = True"
| "is_OSError _ = False"

text \<open>
  \<open>prompt_toolkit.completion.Completion(text, start_position=0, display=None,
  display_meta=None)\<close>. The field \<open>ctext\<close> is the source's \<open>text\<close> (the insertion
  text); a missing \<open>display\<close> defaults to the text and a missing \<open>display_meta\<close>
  to the empty string.
\<close>

record 'c completion =
  ctext :: "'c list"
  start_position :: int
  display :: "'c list"
  display_meta :: "'c list"

definition Completion ::
  "'c list \<Rightarrow> int \<Rightarrow> 'c list option \<Rightarrow> 'c list option \<Rightarrow> 'c completion" where
  "Completion t sp disp meta =
     \<lparr> ctext = t, start_position = sp,
       display = (case disp of None \<Rightarrow> t | Some d \<Rightarrow> d),
       display_meta = (case meta of None \<Rightarrow> [] | Some m \<Rightarrow> m) \<rparr>"

text \<open>
  \<open>prompt_toolkit.document.Document\<close>, as far as the completers read it:
  the attribute \<open>text_before_cursor\<close> and the method
  \<open>get_word_before_cursor(WORD=...)\<close>. The method belongs to prompt_toolkit, so its
  result for each value of \<open>WORD\<close> is a parameter of the model.
\<close>

record 'c document =
  text_before_cursor :: "'c list"
  get_word_before_cursor :: "bool \<Rightarrow> 'c list"

text \<open>
  A generator run to exhaustion: the items it yielded, in order, and the exception that
  ended it, if one escaped.
\<close>

type_synonym 'a generated = "'a list \<times> pyexc option"

text \<open>
  Both \<open>get_completions\<close> methods are generator functions. An exception that leaves
  the body of a generator reaches the caller as it is, except \<open>StopIteration\<close>, which
  the generator protocol replaces by \<open>RuntimeError\<close> (PEP 479, Python 3.7 and later).
\<close>

fun generator_raises :: "pyexc \<Rightarrow> pyexc" where
  "generator_raises StopIteration = RuntimeError"
| "generator_raises e = e"

section \<open>WordCompleter\<close>

text \<open>
  An element of the \<open>words\<close> argument: a string, or any other object
  (\<open>isinstance(w, string_types)\<close> is false).
\<close>

datatype 'c pyobj = Str "'c list" | NotStr

text \<open>
  The \<open>words\<close> argument of the constructor: a callable (given by what calling it does:
  raise, or return a list of words) or a list of objects.
\<close>

datatype 'c words_arg = Callable_arg "pyexc + 'c list list" | List_arg "'c pyobj list"

text \<open>
  \<open>self.words\<close> of a constructed completer: the second assertion of \<open>__init__\<close> has
  passed, so a static list holds strings only.
\<close>

datatype 'c words = Callable "pyexc + 'c list list" | Static "'c list list"

record 'c WordCompleter =
  words :: "'c words"
  ignore_case :: bool
  meta_dict :: "'c list \<rightharpoonup> 'c list"
  WORD :: bool
  sentence :: bool
  match_middle :: bool
  pattern :: "'c list option"

fun the_Str :: "'c pyobj \<Rightarrow> 'c list" where
  "the_Str (Str s) = s"
| "the_Str NotStr = []"

fun is_Str :: "'c pyobj \<Rightarrow> bool" where
  "is_Str (Str s) = True"
| "is_Str NotStr = False"

text \<open>
  \<open>WordCompleter.__init__\<close>: the two assertions in the source's order, then the
  attribute assignments (\<open>meta_dict or {}\<close>).
\<close>

definition WordCompleter_init ::
  "'c words_arg \<Rightarrow> bool \<Rightarrow> ('c list \<rightharpoonup> 'c list) option \<Rightarrow> bool \<Rightarrow> bool \<Rightarrow> bool
     \<Rightarrow> 'c list option \<Rightarrow> pyexc + 'c WordCompleter" where
  "WordCompleter_init ws ic md W sent mm pat =
     (if W \<and> sent then Inl AssertionError
      else case ws of
        Callable_arg f \<Rightarrow>
          Inr \<lparr> words = Callable f, ignore_case = ic,
                meta_dict = (case md of None \<Rightarrow> Map.empty | Some m \<Rightarrow> m),
                WORD = W, sentence = sent, match_middle = mm, pattern = pat \<rparr>
      | List_arg objs \<Rightarrow>
          if list_all is_Str objs then
            Inr \<lparr> words = Static (map the_Str objs), ignore_case = ic,
                  meta_dict = (case md of None \<Rightarrow> Map.empty | Some m \<Rightarrow> m),
                  WORD = W, sentence = sent, match_middle = mm, pattern = pat \<rparr>
          else Inl AssertionError)"

text \<open>\<open>needle in hay\<close> on strings: \<open>needle\<close> occurs in \<open>hay\<close> as a contiguous run.\<close>

fun py_in :: "'c list \<Rightarrow> 'c list \<Rightarrow> bool" where
  "py_in needle [] = (needle = [])"
| "py_in needle (c # cs) = (prefix needle (c # cs) \<or> py_in needle cs)"

text \<open>\<open>s.startswith(p)\<close>.\<close>

definition startswith :: "'c list \<Rightarrow> 'c list \<Rightarrow> bool" where
  "startswith s p = prefix p s"

text \<open>
  The local function \<open>word_matches\<close>. \<open>lower\<close> is \<open>str.lower\<close>: CPython's Unicode
  case mapping is not part of the repository, so it is a parameter.
\<close>

definition word_matches ::
  "('c list \<Rightarrow> 'c list) \<Rightarrow> 'c WordCompleter \<Rightarrow> 'c list \<Rightarrow> 'c list \<Rightarrow> bool" where
  "word_matches lower self word_before_cursor word =
     (let word' = (if ignore_case self then lower word else word)
      in if match_middle self then py_in word_before_cursor word'
         else startswith word' word_before_cursor)"

text \<open>The word (or text) before the cursor after the optional \<open>.lower()\<close>.\<close>

definition word_before_cursor ::
  "('c list \<Rightarrow> 'c list) \<Rightarrow> 'c WordCompleter \<Rightarrow> 'c document \<Rightarrow> 'c list" where
  "word_before_cursor lower self document =
     (let w = (if sentence self then text_before_cursor document
               else get_word_before_cursor document (WORD self))
      in if ignore_case self then lower w else w)"

text \<open>
  \<open>WordCompleter.get_completions\<close>: resolve the words (a raising callable ends the
  generator with its exception before anything is yielded), then yield one
  \<open>Completion(a, -len(word_before_cursor), display_meta=self.meta_dict.get(a, ''))\<close>
  per matching word, in the order of the list.
\<close>

definition WordCompleter_get_completions ::
  "('c list \<Rightarrow> 'c list) \<Rightarrow> 'c WordCompleter \<Rightarrow> 'c document \<Rightarrow> 'c completion generated" where
  "WordCompleter_get_completions lower self document =
     (case (case words self of Callable f \<Rightarrow> f | Static ws \<Rightarrow> Inr ws) of
        Inl e \<Rightarrow> ([], Some (generator_raises e))
      | Inr ws \<Rightarrow>
          (let wbc = word_before_cursor lower self document
           in (map (\<lambda>a. Completion a (- int (length wbc)) None
                          (Some (case meta_dict self a of None \<Rightarrow> [] | Some m \<Rightarrow> m)))
                   (filter (word_matches lower self wbc) ws),
               None)))"

text \<open>The anchor as typed, before any case folding.\<close>

definition typed_anchor :: "'c WordCompleter \<Rightarrow> 'c document \<Rightarrow> 'c list" where
  "typed_anchor self document =
     (if sentence self then text_before_cursor document
      else get_word_before_cursor document (WORD self))"

text \<open>
  \<open>str.lower\<close> on ASCII strings: the capitals \<open>A\<close> to \<open>Z\<close> move to \<open>a\<close> to \<open>z\<close>, every
  other ASCII character stays.
\<close>

definition ascii_lower_char :: "char \<Rightarrow> char" where
  "ascii_lower_char c =
     (if CHR ''A'' \<le> c \<and> c \<le> CHR ''Z'' then char_of (of_char c + (32::nat)) else c)"

definition ascii_lower :: "string \<Rightarrow> string" where
  "ascii_lower s = map ascii_lower_char s"

text \<open>
  An excerpt of \<open>str.lower\<close> on code points (Python 3 applies the full Unicode case
  mapping): the ASCII capitals, and U+0130 LATIN CAPITAL LETTER I WITH DOT ABOVE, whose
  lowercase is the two code points U+0069 U+0307 (Unicode SpecialCasing).
  The theorems below apply it to these code points and to ASCII lowercase letters only.
\<close>

definition lower_code_point :: "nat \<Rightarrow> nat list" where
  "lower_code_point c =
     (if 65 \<le> c \<and> c \<le> 90 then [c + 32]
      else if c = 304 then [105, 775]
      else [c])"

definition unicode_lower_excerpt :: "nat list \<Rightarrow> nat list" where
  "unicode_lower_excerpt s = concat (map lower_code_point s)"

text \<open>
  Example completers and documents: the word list of one of the spec's scenarios, a
  document whose text and word before the cursor are both \<open>w\<close>, and a sentence-mode
  completer over the word \<open>U+0130 s t\<close>.
\<close>

definition create_update_completer :: "char WordCompleter" where
  "create_update_completer =
     \<lparr> words = Static [''create'', ''update''], ignore_case = False, meta_dict = Map.empty,
       WORD = False, sentence = False, match_middle = True, pattern = None \<rparr>"

definition typed_document :: "'c list \<Rightarrow> 'c document" where
  "typed_document w = \<lparr> text_before_cursor = w, get_word_before_cursor = (\<lambda>_. w) \<rparr>"

definition dotted_I_completer :: "nat WordCompleter" where
  "dotted_I_completer =
     \<lparr> words = Static [[304, 115, 116]], ignore_case = True, meta_dict = Map.empty,
       WORD = False, sentence = True, match_middle = False, pattern = None \<rparr>"

section \<open>String and path functions of the Python library\<close>

text \<open>
  Whitespace as \<open>str.strip()\<close> and \<open>str.split()\<close> see it, for the code points below
  256: tab to carriage return, the separators U+001C to U+001F, space, U+0085, U+00A0.
\<close>

definition isspace :: "char \<Rightarrow> bool" where
  "isspace c =
     (let n = (of_char c :: nat)
      in (9 \<le> n \<and> n \<le> 13) \<or> (28 \<le> n \<and> n \<le> 32) \<or> n = 133 \<or> n = 160)"

text \<open>\<open>s.strip()\<close>.\<close>

definition py_strip :: "string \<Rightarrow> string" where
  "py_strip s = rev (dropWhile isspace (rev (dropWhile isspace s)))"

text \<open>
  \<open>s.split()\<close> without arguments: the maximal runs of non-whitespace characters.
  \<open>cur\<close> is the run being read, reversed.
\<close>

fun split_ws :: "string \<Rightarrow> string \<Rightarrow> string list" where
  "split_ws cur [] = (if cur = [] then [] else [rev cur])"
| "split_ws cur (c # cs) =
     (if isspace c then (if cur = [] then split_ws [] cs else rev cur # split_ws [] cs)
      else split_ws (c # cur) cs)"

definition py_split :: "string \<Rightarrow> string list" where
  "py_split s = split_ws [] s"

text \<open>
  Splitting at every character that satisfies \<open>P\<close>, keeping empty segments:
  \<open>s.split(sep)\<close> for a one-character separator, and \<open>re.split\<close> for a pattern that is
  one character class. The result is never the empty list.
\<close>

fun split_at :: "(char \<Rightarrow> bool) \<Rightarrow> string \<Rightarrow> string list" where
  "split_at P [] = [[]]"
| "split_at P (c # cs) =
     (if P c then [] # split_at P cs
      else (case split_at P cs of [] \<Rightarrow> [[c]] | seg # segs \<Rightarrow> (c # seg) # segs))"

text \<open>\<open>sep.join(xs)\<close>.\<close>

fun str_join :: "string \<Rightarrow> string list \<Rightarrow> string" where
  "str_join sep [] = []"
| "str_join sep [x] = x"
| "str_join sep (x # y # ys) = x @ sep @ str_join sep (y # ys)"

abbreviation backslash :: char where
  "backslash \<equiv> CHR 0x5C"

text \<open>
  \<open>re.escape\<close> (Python 3.7 and later): a backslash goes before each of the characters
  \<open>()[]{}?*+-|^$\.&~#\<close>, space, tab, newline, carriage return, vertical tab and form feed.
\<close>

definition re_special :: "char \<Rightarrow> bool" where
  "re_special c =
     (c \<in> set ''()[]{}?*+-|^$.&~# '' \<or> c = backslash \<or>
      c \<in> {CHR 0x09, CHR 0x0A, CHR 0x0D, CHR 0x0B, CHR 0x0C})"

definition re_escape :: "string \<Rightarrow> string" where
  "re_escape s = concat (map (\<lambda>c. if re_special c then [backslash, c] else [c]) s)"

definition is_alnum :: "char \<Rightarrow> bool" where
  "is_alnum c =
     ((CHR ''a'' \<le> c \<and> c \<le> CHR ''z'') \<or> (CHR ''A'' \<le> c \<and> c \<le> CHR ''Z'') \<or>
      (CHR ''0'' \<le> c \<and> c \<le> CHR ''9''))"

text \<open>
  The items of a regular-expression character class, read after its opening bracket;
  \<open>started\<close> says that an item has been read, since a closing bracket in first place
  is a literal. \<open>None\<close> is \<open>re.error\<close>: the pattern ends before the class is closed
  (\<open>re.compile('[]')\<close> raises "unterminated character set"). A backslash before a
  character that is no letter or digit stands for that character. The forms that
  \<open>re.escape\<close> rules out in the completer's pattern (a backslash before a letter or
  digit, a range, a negated class, text after the class) are not modelled and give
  \<open>None\<close> as well; \<open>regexPattern_class\<close> below shows that the completer's pattern
  never reaches them.
\<close>

fun class_items :: "bool \<Rightarrow> string \<Rightarrow> string option" where
  "class_items started [] = None"
| "class_items started [c] = (if c = CHR '']'' \<and> started then Some [] else None)"
| "class_items started (c # d # ds) =
     (if c = CHR '']'' \<and> started then None
      else if c = backslash then
        (if is_alnum d then None else map_option ((#) d) (class_items True ds))
      else if c = CHR ''-'' \<or> (c = CHR ''^'' \<and> \<not> started) then None
      else map_option ((#) c) (class_items True (d # ds)))"

text \<open>The characters that a pattern made of one character class matches.\<close>

definition re_class :: "string \<Rightarrow> string option" where
  "re_class pat = (case pat of [] \<Rightarrow> None | c # cs \<Rightarrow> if c = CHR ''['' then class_items False cs else None)"

text \<open>
  \<open>posixpath.basename\<close>, \<open>posixpath.dirname\<close> and \<open>posixpath.join\<close> of two
  arguments; \<open>os.pathsep\<close> is the colon.
\<close>

definition basename :: "string \<Rightarrow> string" where
  "basename p = rev (takeWhile (\<lambda>c. c \<noteq> CHR ''/'') (rev p))"

definition dirname :: "string \<Rightarrow> string" where
  "dirname p =
     (let head = rev (dropWhile (\<lambda>c. c \<noteq> CHR ''/'') (rev p))
      in if head \<noteq> [] \<and> head \<noteq> replicate (length head) (CHR ''/'')
         then rev (dropWhile (\<lambda>c. c = CHR ''/'') (rev head))
         else head)"

definition join :: "string \<Rightarrow> string \<Rightarrow> string" where
  "join a b =
     (if startswith b ''/'' then b
      else if a = [] \<or> last a = CHR ''/'' then a @ b
      else a @ ''/'' @ b)"

section \<open>PathCompleter\<close>

text \<open>
  What the completer reads from the operating system during one request:
  \<open>os.path.isdir\<close> (which returns False instead of raising), \<open>os.listdir\<close> (which
  raises or returns the names), \<open>os.path.expanduser\<close>, \<open>os.environ\<close> and
  \<open>os.access(name, os.X_OK)\<close>.
\<close>

record os_state =
  os_path_isdir :: "string \<Rightarrow> bool"
  os_listdir :: "string \<Rightarrow> pyexc + string list"
  os_path_expanduser :: "string \<Rightarrow> string"
  os_environ :: "string \<rightharpoonup> string"
  os_access_X_OK :: "string \<Rightarrow> bool"

text \<open>
  The attributes of a PathCompleter. The two callables may read the operating system
  when they are called, and may raise.
\<close>

record PathCompleter =
  only_directories :: bool
  get_paths :: "os_state \<Rightarrow> pyexc + string list"
  file_filter :: "os_state \<Rightarrow> string \<Rightarrow> pyexc + bool"
  min_input_len :: int
  expanduser :: bool
  delimiters :: "string option"

text \<open>
  \<open>PathCompleter.__init__\<close>. Its assertions check the types of the arguments, which
  the types of the model give; \<open>get_paths\<close> defaults to \<open>lambda: ['.']\<close> and
  \<open>file_filter\<close> to \<open>lambda _: True\<close>.
\<close>

definition PathCompleter_init ::
  "bool \<Rightarrow> (os_state \<Rightarrow> pyexc + string list) option
     \<Rightarrow> (os_state \<Rightarrow> string \<Rightarrow> pyexc + bool) option \<Rightarrow> int \<Rightarrow> bool \<Rightarrow> string option
     \<Rightarrow> PathCompleter" where
  "PathCompleter_init only_dirs gp ff mil eu delims =
     \<lparr> only_directories = only_dirs,
       get_paths = (case gp of None \<Rightarrow> (\<lambda>_. Inr [''.'']) | Some f \<Rightarrow> f),
       file_filter = (case ff of None \<Rightarrow> (\<lambda>_ _. Inr True) | Some f \<Rightarrow> f),
       min_input_len = mil, expanduser = eu, delimiters = delims \<rparr>"

text \<open>
  \<open>regexPattern\<close>: the delimiter string is split at whitespace, each piece escaped,
  the pieces joined by a bar and put between brackets.
\<close>

definition regexPattern :: "string \<Rightarrow> string" where
  "regexPattern delims = ''['' @ str_join ''|'' (map re_escape (py_split delims)) @ '']''"

text \<open>
  Lines 43 to 47: the text that the rest of \<open>get_completions\<close> works on.
  \<open>re.split(regexPattern, text)[-1]\<close> is the last segment; the list of segments is
  never empty.
\<close>

definition working_text :: "PathCompleter \<Rightarrow> char document \<Rightarrow> pyexc + string" where
  "working_text self document =
     (let text = py_strip (text_before_cursor document)
      in case delimiters self of
           None \<Rightarrow> Inr text
         | Some delims \<Rightarrow>
             (case re_class (regexPattern delims) of
                None \<Rightarrow> Inl re_error
              | Some cls \<Rightarrow> Inr (py_strip (last (split_at (\<lambda>c. c \<in> set cls) text)))))"

text \<open>Lines 61 to 66: the directories to look into, after the one call of \<open>get_paths\<close>.\<close>

definition directories :: "PathCompleter \<Rightarrow> os_state \<Rightarrow> string \<Rightarrow> pyexc + string list" where
  "directories self os text =
     (case get_paths self os of
        Inl e \<Rightarrow> Inl e
      | Inr ps \<Rightarrow>
          if dirname text \<noteq> [] then Inr (map (\<lambda>p. dirname (join p text)) ps)
          else Inr ps)"

text \<open>
  Lines 72 to 78: the loop that fills \<open>filenames\<close>; \<open>pfx\<close> is the source's \<open>prefix\<close>. An exception of \<open>os.listdir\<close>
  leaves the loop.
\<close>

fun collect :: "os_state \<Rightarrow> string \<Rightarrow> string list \<Rightarrow> pyexc + (string \<times> string) list" where
  "collect os pfx [] = Inr []"
| "collect os pfx (directory # rest) =
     (if os_path_isdir os directory then
        (case os_listdir os directory of
           Inl e \<Rightarrow> Inl e
         | Inr names \<Rightarrow>
             (case collect os pfx rest of
                Inl e \<Rightarrow> Inl e
              | Inr found \<Rightarrow>
                  Inr (map (Pair directory) (filter (\<lambda>filename. startswith filename pfx) names)
                       @ found)))
      else collect os pfx rest)"

text \<open>
  Lines 60 to 81: \<open>filenames\<close> after \<open>sorted(filenames, key=lambda k: k[1])\<close>, a stable
  sort on the file name, strings being compared code point by code point.
\<close>

definition sorted_filenames ::
  "PathCompleter \<Rightarrow> os_state \<Rightarrow> string \<Rightarrow> pyexc + (string \<times> string) list" where
  "sorted_filenames self os text =
     (case directories self os text of
        Inl e \<Rightarrow> Inl e
      | Inr dirs \<Rightarrow>
          (case collect os (basename text) dirs of
             Inl e \<Rightarrow> Inl e
           | Inr filenames \<Rightarrow> Inr (sort_key snd filenames)))"

text \<open>
  Lines 84 to 99: the loop that yields. An exception of \<open>file_filter\<close> ends it after
  the completions already yielded.
\<close>

fun emit ::
  "PathCompleter \<Rightarrow> os_state \<Rightarrow> string \<Rightarrow> (string \<times> string) list \<Rightarrow> char completion generated" where
  "emit self os pfx [] = ([], None)"
| "emit self os pfx ((directory, filename) # rest) =
     (let completion = drop (length pfx) filename;
          full_name = join directory filename;
          is_dir = os_path_isdir os full_name
      in if \<not> is_dir \<and> only_directories self then emit self os pfx rest
         else
           (case file_filter self os full_name of
              Inl e \<Rightarrow> ([], Some e)
            | Inr keep \<Rightarrow>
                if \<not> keep then emit self os pfx rest
                else
                  (let filename' = (if is_dir then filename @ ''/'' else filename);
                       (cs, r) = emit self os pfx rest
                   in (Completion completion 0 (Some filename') None # cs, r))))"

text \<open>Lines 57 and 58: the tilde expansion.\<close>

definition expand :: "PathCompleter \<Rightarrow> os_state \<Rightarrow> string \<Rightarrow> string" where
  "expand self os text = (if expanduser self then os_path_expanduser os text else text)"

text \<open>The body of the \<open>try\<close> statement, lines 56 to 99.\<close>

definition try_body :: "PathCompleter \<Rightarrow> os_state \<Rightarrow> string \<Rightarrow> char completion generated" where
  "try_body self os text0 =
     (let text = expand self os text0
      in case sorted_filenames self os text of
           Inl e \<Rightarrow> ([], Some e)
         | Inr filenames \<Rightarrow> emit self os (basename text) filenames)"

text \<open>
  \<open>PathCompleter.get_completions\<close>: the working text (an \<open>re.error\<close> there is outside
  the \<open>try\<close>), the test on \<open>min_input_len\<close>, then the body, whose \<open>OSError\<close>s the
  clause \<open>except OSError: pass\<close> swallows; any other exception leaves the generator.
\<close>

definition PathCompleter_get_completions ::
  "PathCompleter \<Rightarrow> os_state \<Rightarrow> char document \<Rightarrow> char completion generated" where
  "PathCompleter_get_completions self os document =
     (case working_text self document of
        Inl e \<Rightarrow> ([], Some (generator_raises e))
      | Inr text \<Rightarrow>
          if int (length text) < min_input_len self then ([], None)
          else
            (let (cs, r) = try_body self os text
             in (cs, case r of
                       None \<Rightarrow> None
                     | Some e \<Rightarrow> if is_OSError e then None else Some (generator_raises e))))"

section \<open>ExecutableCompleter and the text prompt\<close>

text \<open>
  The attributes that the body of \<open>ExecutableCompleter.__init__\<close> sets, through
  \<open>PathCompleter.__init__\<close>, with
  \<open>get_paths=lambda: os.environ.get('PATH', '').split(os.pathsep)\<close> and
  \<open>file_filter=lambda name: os.access(name, os.X_OK)\<close>.
\<close>

definition ExecutableCompleter_attributes :: PathCompleter where
  "ExecutableCompleter_attributes =
     PathCompleter_init False
       (Some (\<lambda>os. Inr (split_at (\<lambda>c. c = CHR '':'')
                          (case os_environ os ''PATH'' of None \<Rightarrow> [] | Some v \<Rightarrow> v))))
       (Some (\<lambda>os name. Inr (os_access_X_OK os name)))
       1 True None"

text \<open>
  \<open>ExecutableCompleter.__init__(self)\<close>, called with the keyword arguments \<open>kwargs\<close>
  (name and value). The signature has no parameter besides \<open>self\<close>, so any keyword
  argument makes the call raise TypeError before the body runs.
\<close>

definition ExecutableCompleter_init :: "(string \<times> string) list \<Rightarrow> pyexc + PathCompleter" where
  "ExecutableCompleter_init kwargs =
     (if kwargs \<noteq> [] then Inl TypeError else Inr ExecutableCompleter_attributes)"

text \<open>
  The completer that \<open>text\<close> puts into \<open>promptArgs\<close>: a PathCompleter (or its subclass),
  or prompt_toolkit's own WordCompleter, which \<open>text.py\<close> imports from
  \<open>prompt_toolkit.completion\<close>.
\<close>

datatype completer = PathC PathCompleter | ToolkitWordC "string list" bool

text \<open>The delimiter string \<open>' \t\n;,'\<close> of \<open>text.py\<close>.\<close>

definition text_delimiters :: string where
  "text_delimiters = [CHR '' '', CHR 0x09, CHR 0x0A, CHR '';'', CHR '','']"

text \<open>
  \<open>text\<close> of \<open>questionary/prompts/text.py\<close>, lines 73 to 80: the choice of the
  completer, as a function of the three autocompletion arguments. The result is the
  exception that leaves \<open>text\<close> there, or the entry \<open>promptArgs['completer']\<close> (None
  when there is none). The calls before and after (\<open>merge_styles\<close>,
  \<open>build_validator\<close>, \<open>PromptSession\<close>, \<open>Question\<close>) are outside the two source files
  and not modelled. (\<open>text\<close> is a keyword of Isabelle, hence the name.)
\<close>

definition text_prompt :: "bool \<Rightarrow> bool \<Rightarrow> string list option \<Rightarrow> pyexc + completer option" where
  "text_prompt path_autocomplete exec_autocomplete custom_autocomplete =
     (if path_autocomplete then
        Inr (Some (PathC (PathCompleter_init False None None 0 True (Some text_delimiters))))
      else if exec_autocomplete then
        (case ExecutableCompleter_init [(''delimiters'', text_delimiters)] of
           Inl e \<Rightarrow> Inl e
         | Inr c \<Rightarrow> Inr (Some (PathC c)))
      else
        (case custom_autocomplete of
           None \<Rightarrow> Inr None
         | Some ws \<Rightarrow> if length ws \<noteq> 0 then Inr (Some (ToolkitWordC ws True)) else Inr None))"

section \<open>The working text as the specification words it\<close>

text \<open>
  The specification: split the trimmed text before the cursor on any character of the
  delimiter set and take the last non-empty segment, trimmed (the empty string when
  there is no such segment).
\<close>

definition spec_working_text :: "string \<Rightarrow> string \<Rightarrow> string" where
  "spec_working_text delims raw =
     (case filter (\<lambda>seg. seg \<noteq> [])
             (split_at (\<lambda>c. c \<in> set delims) (py_strip raw)) of
        [] \<Rightarrow> []
      | seg # segs \<Rightarrow> py_strip (last (seg # segs)))"

text \<open>
  Example file systems and completers. \<open>tmp_os\<close> is the directory of the spec's
  scenario: \<open>/tmp/x\<close> holds \<open>alpha.txt\<close>, the directory \<open>alphabet\<close> and \<open>beta.txt\<close>.
  In \<open>proj_os\<close>, \<open>/proj\<close> holds the directory \<open>lib\<close> and the file \<open>lib.txt\<close>. In
  \<open>ab_os\<close>, \<open>/a\<close> holds \<open>x1\<close> and listing \<open>/b\<close> is refused. In \<open>bin_os\<close>, \<open>/bin\<close>
  holds the executable \<open>ls\<close> and \<open>PATH\<close> is not set.
\<close>

definition tmp_os :: os_state where
  "tmp_os =
     \<lparr> os_path_isdir = (\<lambda>p. p = ''/tmp/x'' \<or> p = ''/tmp/x/alphabet''),
       os_listdir = (\<lambda>p. if p = ''/tmp/x'' then Inr [''beta.txt'', ''alphabet'', ''alpha.txt'']
                          else Inl FileNotFoundError),
       os_path_expanduser = (\<lambda>p. p), os_environ = Map.empty,
       os_access_X_OK = (\<lambda>_. False) \<rparr>"

definition proj_os :: os_state where
  "proj_os =
     \<lparr> os_path_isdir = (\<lambda>p. p = ''/proj'' \<or> p = ''/proj/lib''),
       os_listdir = (\<lambda>p. if p = ''/proj'' then Inr [''lib.txt'', ''lib'']
                          else Inl FileNotFoundError),
       os_path_expanduser = (\<lambda>p. p), os_environ = Map.empty,
       os_access_X_OK = (\<lambda>_. False) \<rparr>"

definition ab_os :: os_state where
  "ab_os =
     \<lparr> os_path_isdir = (\<lambda>p. p = ''/a'' \<or> p = ''/b''),
       os_listdir = (\<lambda>p. if p = ''/a'' then Inr [''x1'']
                          else if p = ''/b'' then Inl PermissionError
                          else Inl FileNotFoundError),
       os_path_expanduser = (\<lambda>p. p), os_environ = Map.empty,
       os_access_X_OK = (\<lambda>_. False) \<rparr>"

definition bin_os :: os_state where
  "bin_os =
     \<lparr> os_path_isdir = (\<lambda>p. p = ''/bin''),
       os_listdir = (\<lambda>p. if p = ''/bin'' then Inr [''ls''] else Inl FileNotFoundError),
       os_path_expanduser = (\<lambda>p. p), os_environ = Map.empty,
       os_access_X_OK = (\<lambda>p. p = ''/bin/ls'') \<rparr>"

text \<open>
  \<open>PathCompleter(get_paths=lambda: paths)\<close>, and completers whose \<open>file_filter\<close> or
  \<open>get_paths\<close> raises \<open>e\<close> whenever it is called.
\<close>

definition completer_over :: "string list \<Rightarrow> PathCompleter" where
  "completer_over paths = PathCompleter_init False (Some (\<lambda>_. Inr paths)) None 0 False None"

definition raising_filter_completer :: "pyexc \<Rightarrow> PathCompleter" where
  "raising_filter_completer e =
     PathCompleter_init False (Some (\<lambda>_. Inr [''/a''])) (Some (\<lambda>_ _. Inl e)) 0 False None"

definition raising_paths_completer :: "pyexc \<Rightarrow> PathCompleter" where
  "raising_paths_completer e = PathCompleter_init False (Some (\<lambda>_. Inl e)) None 0 False None"


text \<open>\<open>PathCompleter(delimiters=delims)\<close>.\<close>

definition delimited_completer :: "string \<Rightarrow> PathCompleter" where
  "delimited_completer delims = PathCompleter_init False None None 0 False (Some delims)"

section \<open>Properties of the WordCompleter\<close>

lemma py_in_iff: "py_in needle hay \<longleftrightarrow> (\<exists>ps ss. hay = ps @ needle @ ss)"
proof (induction hay)
  case Nil
  show ?case by auto
next
  case (Cons c cs)
  have "(\<exists>ps ss. c # cs = ps @ needle @ ss) \<longleftrightarrow>
        prefix needle (c # cs) \<or> (\<exists>ps ss. cs = ps @ needle @ ss)"
  proof
    assume "\<exists>ps ss. c # cs = ps @ needle @ ss"
    then obtain ps ss where eq: "c # cs = ps @ needle @ ss" by blast
    show "prefix needle (c # cs) \<or> (\<exists>ps ss. cs = ps @ needle @ ss)"
    proof (cases ps)
      case Nil
      with eq show ?thesis by (auto simp: prefix_def)
    next
      case (Cons p ps')
      with eq have "cs = ps' @ needle @ ss" by simp
      then show ?thesis by blast
    qed
  next
    assume "prefix needle (c # cs) \<or> (\<exists>ps ss. cs = ps @ needle @ ss)"
    then show "\<exists>ps ss. c # cs = ps @ needle @ ss"
    proof
      assume "prefix needle (c # cs)"
      then obtain ss where "c # cs = needle @ ss" by (auto simp: prefix_def)
      then have "c # cs = [] @ needle @ ss" by simp
      then show ?thesis by blast
    next
      assume "\<exists>ps ss. cs = ps @ needle @ ss"
      then obtain ps ss where "cs = ps @ needle @ ss" by blast
      then have "c # cs = (c # ps) @ needle @ ss" by simp
      then show ?thesis by blast
    qed
  qed
  with Cons show ?case by simp
qed

text \<open>
  Claim C9. Constructing a WordCompleter with both \<open>WORD\<close> and \<open>sentence\<close> true fails in
  the constructor itself, with the AssertionError of its first assertion, whatever the
  other arguments are: no completer object exists on which a completion request could
  be made.
\<close>

theorem C9_word_and_sentence_fails_at_construction:
  "WordCompleter_init ws ic md True True mm pat = Inl AssertionError"
  by (simp add: WordCompleter_init_def)

text \<open>
  Claim C8. Once the words are resolved to a list \<open>ws\<close>, a word \<open>w\<close> is the insertion
  text of an emitted completion exactly when it is in \<open>ws\<close> and matches: with
  \<open>match_middle\<close> false, \<open>w\<close> starts with the typed anchor; with \<open>match_middle\<close> true,
  the anchor occurs in \<open>w\<close> as a contiguous substring; both sides are lowercased first
  when \<open>ignore_case\<close> is set.
\<close>

theorem C8_emitted_iff_matches:
  assumes "(case words self of Callable f \<Rightarrow> f | Static ws \<Rightarrow> Inr ws) = Inr ws"
  shows "w \<in> set (map ctext (fst (WordCompleter_get_completions lower self document))) \<longleftrightarrow>
         w \<in> set ws \<and>
         (let fold = (if ignore_case self then lower else (\<lambda>s. s));
              anchor = typed_anchor self document
          in if match_middle self then (\<exists>ps ss. fold w = ps @ fold anchor @ ss)
             else prefix (fold anchor) (fold w))"
proof -
  let ?wbc = "word_before_cursor lower self document"
  have out: "map ctext (fst (WordCompleter_get_completions lower self document)) =
             filter (word_matches lower self ?wbc) ws"
    using assms
    by (simp add: WordCompleter_get_completions_def Let_def Completion_def comp_def)
  have wbc: "?wbc = (if ignore_case self then lower (typed_anchor self document)
                     else typed_anchor self document)"
    by (simp add: word_before_cursor_def typed_anchor_def Let_def)
  show ?thesis
    unfolding out
    by (simp add: wbc word_matches_def startswith_def py_in_iff Let_def)
qed

theorem C8_emitted_iff_matches_witness:
  "(case words create_update_completer of Callable f \<Rightarrow> f | Static ws \<Rightarrow> Inr ws) =
     Inr [''create'', ''update''] \<and>
   ''create'' \<in> set (map ctext (fst (WordCompleter_get_completions ascii_lower
       create_update_completer (typed_document ''eat'')))) \<and>
   (\<exists>ps ss. ''create'' = ps @ ''eat'' @ ss)"
proof -
  have h: "(case words create_update_completer of Callable f \<Rightarrow> f | Static ws \<Rightarrow> Inr ws) =
           Inr [''create'', ''update'']"
    by (simp add: create_update_completer_def)
  have emitted: "''create'' \<in> set (map ctext (fst (WordCompleter_get_completions ascii_lower
       create_update_completer (typed_document ''eat''))))"
    by (simp add: WordCompleter_get_completions_def create_update_completer_def
        typed_document_def word_before_cursor_def word_matches_def Completion_def Let_def)
  from C8_emitted_iff_matches [OF h, of "''create''" ascii_lower "typed_document ''eat''"] emitted
  have "\<exists>ps ss. ''create'' = ps @ ''eat'' @ ss"
    by (simp add: create_update_completer_def typed_anchor_def typed_document_def Let_def)
  with h emitted show ?thesis by blast
qed

text \<open>
  What every completion of the WordCompleter carries: the candidate word as it is in the
  list, as insertion and as display text, and a start position computed from the word
  before the cursor after the optional \<open>.lower()\<close>.
\<close>

lemma WordCompleter_yields:
  assumes "(case words self of Callable f \<Rightarrow> f | Static ws \<Rightarrow> Inr ws) = Inr ws"
    and "c \<in> set (fst (WordCompleter_get_completions lower self document))"
  shows "ctext c \<in> set ws \<and> display c = ctext c \<and>
         start_position c = - int (length (word_before_cursor lower self document))"
  using assms
  by (auto simp: WordCompleter_get_completions_def Completion_def Let_def)

text \<open>
  Where lowercasing keeps the length of the anchor (as it does on ASCII text), the
  start position is minus the length of the anchor as typed.
\<close>

lemma WordCompleter_start_position_same_length:
  assumes "(case words self of Callable f \<Rightarrow> f | Static ws \<Rightarrow> Inr ws) = Inr ws"
    and "c \<in> set (fst (WordCompleter_get_completions lower self document))"
    and "length (lower (typed_anchor self document)) = length (typed_anchor self document)"
  shows "start_position c = - int (length (typed_anchor self document))"
  using WordCompleter_yields [OF assms(1,2)] assms(3)
  by (auto simp: word_before_cursor_def typed_anchor_def Let_def split: if_splits)

text \<open>
  Claim C7, the behaviour of the source. With \<open>ignore_case\<close> set, the source overwrites
  \<open>word_before_cursor\<close> with its lowercased form and computes the start position from
  that: in sentence mode, for the typed text U+0130 and the candidate word
  \<open>U+0130 s t\<close>, the one completion emitted keeps the candidate's casing but has start
  position \<open>-2\<close>, the length of the lowercased anchor \<open>U+0069 U+0307\<close>, while the typed
  anchor has length 1.
\<close>

theorem C7_start_position_uses_lowered_anchor:
  "fst (WordCompleter_get_completions unicode_lower_excerpt dotted_I_completer
          (typed_document [304])) =
     [\<lparr> ctext = [304, 115, 116], start_position = - 2, display = [304, 115, 116],
        display_meta = [] \<rparr>] \<and>
   - int (length (typed_anchor dotted_I_completer (typed_document [304]))) = - 1"
  by (simp add: WordCompleter_get_completions_def dotted_I_completer_def typed_document_def
      word_before_cursor_def word_matches_def typed_anchor_def Completion_def
      unicode_lower_excerpt_def lower_code_point_def startswith_def Let_def)

section \<open>Properties of the PathCompleter\<close>

lemma collect_found:
  "collect os pfx dirs = Inr found \<Longrightarrow> (d, f) \<in> set found \<Longrightarrow>
     d \<in> set dirs \<and> os_path_isdir os d \<and>
     (\<exists>names. os_listdir os d = Inr names \<and> f \<in> set names) \<and> startswith f pfx"
proof (induction dirs arbitrary: found)
  case Nil
  then show ?case by simp
next
  case (Cons a dirs)
  show ?case
  proof (cases "os_path_isdir os a")
    case False
    with Cons show ?thesis by auto
  next
    case True
    with Cons.prems obtain names rest where
      n: "os_listdir os a = Inr names" and r: "collect os pfx dirs = Inr rest" and
      f: "found = map (Pair a) (filter (\<lambda>filename. startswith filename pfx) names) @ rest"
      by (auto split: sum.splits)
    from Cons.prems(2) f have
      "(d = a \<and> f \<in> set names \<and> startswith f pfx) \<or> (d, f) \<in> set rest"
      by auto
    then show ?thesis
    proof
      assume "d = a \<and> f \<in> set names \<and> startswith f pfx"
      with True n show ?thesis by simp
    next
      assume "(d, f) \<in> set rest"
      from Cons.IH [OF r this] show ?thesis by simp
    qed
  qed
qed

lemma collect_raises:
  "d \<in> set dirs \<Longrightarrow> os_path_isdir os d \<Longrightarrow> os_listdir os d = Inl e \<Longrightarrow>
     \<exists>e' d'. collect os pfx dirs = Inl e' \<and> d' \<in> set dirs \<and> os_listdir os d' = Inl e'"
proof (induction dirs)
  case Nil
  then show ?case by simp
next
  case (Cons a dirs)
  show ?case
  proof (cases "d = a")
    case True
    with Cons.prems show ?thesis by auto
  next
    case False
    with Cons.prems have "d \<in> set dirs" by simp
    from Cons.IH [OF this Cons.prems(2,3)] obtain e' d' where
      "collect os pfx dirs = Inl e'" "d' \<in> set dirs" "os_listdir os d' = Inl e'" by blast
    then show ?thesis by (auto split: sum.splits)
  qed
qed

lemma emit_step:
  "set (fst (emit self os pfx ((d, f) # rest))) \<subseteq>
     insert (Completion (drop (length pfx) f) 0
               (Some (if os_path_isdir os (join d f) then f @ ''/'' else f)) None)
            (set (fst (emit self os pfx rest)))"
  by (auto simp: Let_def split: sum.splits prod.splits)

lemma emit_yields:
  "c \<in> set (fst (emit self os pfx pairs)) \<Longrightarrow>
     \<exists>d f. (d, f) \<in> set pairs \<and> c = Completion (drop (length pfx) f) 0
        (Some (if os_path_isdir os (join d f) then f @ ''/'' else f)) None"
proof (induction pairs)
  case Nil
  then show ?case by simp
next
  case (Cons a pairs)
  obtain d f where a: "a = (d, f)" by (cases a)
  from Cons.prems a emit_step [of self os pfx d f pairs]
  have "c = Completion (drop (length pfx) f) 0
              (Some (if os_path_isdir os (join d f) then f @ ''/'' else f)) None
        \<or> c \<in> set (fst (emit self os pfx pairs))"
    by auto
  then show ?case
  proof
    assume c: "c = Completion (drop (length pfx) f) 0
              (Some (if os_path_isdir os (join d f) then f @ ''/'' else f)) None"
    from a have "(d, f) \<in> set (a # pairs)" by simp
    with c show ?thesis by blast
  next
    assume "c \<in> set (fst (emit self os pfx pairs))"
    from Cons.IH [OF this] obtain d' f' where "(d', f') \<in> set pairs" and
      c: "c = Completion (drop (length pfx) f') 0
              (Some (if os_path_isdir os (join d' f') then f' @ ''/'' else f')) None"
      by blast
    then have "(d', f') \<in> set (a # pairs)" by simp
    with c show ?thesis by blast
  qed
qed

lemma emit_Cons_shape:
  "fst (emit self os pfx ((d, f) # rest)) = [] \<or>
   fst (emit self os pfx ((d, f) # rest)) = fst (emit self os pfx rest) \<or>
   fst (emit self os pfx ((d, f) # rest)) =
     Completion (drop (length pfx) f) 0
       (Some (if os_path_isdir os (join d f) then f @ ''/'' else f)) None
     # fst (emit self os pfx rest)"
  by (auto simp: Let_def split: sum.splits prod.splits)

lemma emit_sorted:
  "sorted (map snd pairs) \<Longrightarrow> \<forall>p\<in>set pairs. startswith (snd p) pfx \<Longrightarrow>
     sorted (map (\<lambda>c. pfx @ ctext c) (fst (emit self os pfx pairs))) \<and>
     set (map (\<lambda>c. pfx @ ctext c) (fst (emit self os pfx pairs))) \<subseteq> set (map snd pairs)"
proof (induction pairs)
  case Nil
  then show ?case by simp
next
  case (Cons a pairs)
  obtain d f where a: "a = (d, f)" by (cases a)
  from Cons.prems a have "startswith f pfx" by simp
  then have key: "pfx @ drop (length pfx) f = f"
    by (auto simp: startswith_def prefix_def)
  from Cons.prems a have le: "\<forall>y\<in>set (map snd pairs). f \<le> y"
    by auto
  from Cons have IH: "sorted (map (\<lambda>c. pfx @ ctext c) (fst (emit self os pfx pairs)))"
    "set (map (\<lambda>c. pfx @ ctext c) (fst (emit self os pfx pairs))) \<subseteq> set (map snd pairs)"
    by auto
  from emit_Cons_shape [of self os pfx d f pairs] show ?case
  proof (elim disjE)
    assume "fst (emit self os pfx ((d, f) # pairs)) = []"
    with a show ?thesis by simp
  next
    assume "fst (emit self os pfx ((d, f) # pairs)) = fst (emit self os pfx pairs)"
    with a IH show ?thesis by auto
  next
    assume eq: "fst (emit self os pfx ((d, f) # pairs)) =
      Completion (drop (length pfx) f) 0
        (Some (if os_path_isdir os (join d f) then f @ ''/'' else f)) None
      # fst (emit self os pfx pairs)"
    have hd: "pfx @ ctext (Completion (drop (length pfx) f) 0
        (Some (if os_path_isdir os (join d f) then f @ ''/'' else f)) None) = f"
      using key by (simp add: Completion_def)
    have "\<forall>y\<in>set (map (\<lambda>c. pfx @ ctext c) (fst (emit self os pfx pairs))). f \<le> y"
      using IH(2) le by blast
    with IH hd show ?thesis
      unfolding a eq by (simp del: emit.simps) blast
  qed
qed


text \<open>
  Whenever \<open>file_filter\<close> raises on some candidate that reaches it, there is a first
  such candidate, so the hypotheses of \<open>emit_filter_raises\<close> can be met.
\<close>

lemma first_filter_exception:
  assumes "(d0, f0) \<in> set fs"
    and "os_path_isdir os (join d0 f0) \<or> \<not> only_directories self"
    and "file_filter self os (join d0 f0) = Inl e0"
  shows "\<exists>pre d f post e.
           fs = pre @ (d, f) # post \<and>
           (\<forall>p\<in>set pre.
              os_path_isdir os (join (fst p) (snd p)) \<or> \<not> only_directories self \<longrightarrow>
              (\<exists>b. file_filter self os (join (fst p) (snd p)) = Inr b)) \<and>
           (os_path_isdir os (join d f) \<or> \<not> only_directories self) \<and>
           file_filter self os (join d f) = Inl e"
proof -
  define raises where "raises = (\<lambda>p.
      (os_path_isdir os (join (fst p) (snd p)) \<or> \<not> only_directories self) \<and>
      isl (file_filter self os (join (fst p) (snd p))))"
  from assms have "raises (d0, f0)" by (simp add: raises_def)
  with assms(1) have "\<exists>p\<in>set fs. raises p" by blast
  from split_list_first_prop [OF this] obtain pre p post where
    fs: "fs = pre @ p # post" and p: "raises p" and before: "\<forall>q\<in>set pre. \<not> raises q"
    by blast
  from p have reach: "os_path_isdir os (join (fst p) (snd p)) \<or> \<not> only_directories self"
    and "isl (file_filter self os (join (fst p) (snd p)))"
    by (simp_all add: raises_def)
  then obtain e where e: "file_filter self os (join (fst p) (snd p)) = Inl e"
    by (cases "file_filter self os (join (fst p) (snd p))") auto
  have ret: "\<forall>q\<in>set pre.
              os_path_isdir os (join (fst q) (snd q)) \<or> \<not> only_directories self \<longrightarrow>
              (\<exists>b. file_filter self os (join (fst q) (snd q)) = Inr b)"
  proof (intro ballI impI)
    fix q assume "q \<in> set pre"
      and "os_path_isdir os (join (fst q) (snd q)) \<or> \<not> only_directories self"
    with before have "\<not> isl (file_filter self os (join (fst q) (snd q)))"
      by (auto simp: raises_def)
    then show "\<exists>b. file_filter self os (join (fst q) (snd q)) = Inr b"
      by (cases "file_filter self os (join (fst q) (snd q))") auto
  qed
  from fs have "fs = pre @ (fst p, snd p) # post" by simp
  with ret reach e show ?thesis by blast
qed

lemma set_sorted_filenames:
  "sorted_filenames self os text = Inr fs \<Longrightarrow>
     \<exists>dirs found. directories self os text = Inr dirs \<and>
        collect os (basename text) dirs = Inr found \<and> fs = sort_key snd found"
  by (auto simp: sorted_filenames_def split: sum.splits)

lemma get_completions_yields:
  assumes "working_text self document = Inr t"
    and "c \<in> set (fst (PathCompleter_get_completions self os document))"
  shows "\<exists>fs. sorted_filenames self os (expand self os t) = Inr fs \<and>
           c \<in> set (fst (emit self os (basename (expand self os t)) fs))"
  using assms
  by (auto simp: PathCompleter_get_completions_def try_body_def Let_def
      split: if_splits sum.splits prod.splits)

lemma get_completions_fst:
  assumes "working_text self document = Inr t"
  shows "fst (PathCompleter_get_completions self os document) = [] \<or>
         (\<exists>fs. sorted_filenames self os (expand self os t) = Inr fs \<and>
            fst (PathCompleter_get_completions self os document) =
            fst (emit self os (basename (expand self os t)) fs))"
  using assms
  by (auto simp: PathCompleter_get_completions_def try_body_def Let_def
      split: if_splits sum.splits prod.splits)

text \<open>The definitions unfolded when the completer is evaluated on an example.\<close>

lemmas path_eval = PathCompleter_get_completions_def working_text_def try_body_def expand_def
  sorted_filenames_def directories_def PathCompleter_init_def completer_over_def
  raising_filter_completer_def raising_paths_completer_def
  typed_document_def Completion_def py_strip_def isspace_def dirname_def basename_def join_def
  startswith_def Let_def

text \<open>
  Claim C1, as the source has it. Every completion that the PathCompleter yields has
  start position 0 (nothing before the cursor is deleted), and its insertion text is an
  entry of a listed directory that starts with the typed prefix, with the length of the
  prefix dropped from its front: the rest of the file name is inserted at the cursor.
  The prefix is the basename of the working text after tilde expansion.
\<close>

theorem C1_insertion_text_at_offset_zero:
  assumes wt: "working_text self document = Inr t"
    and c: "c \<in> set (fst (PathCompleter_get_completions self os document))"
  shows "start_position c = 0 \<and>
         (\<exists>directory names filename.
            os_listdir os directory = Inr names \<and> filename \<in> set names \<and>
            startswith filename (basename (expand self os t)) \<and>
            ctext c = drop (length (basename (expand self os t))) filename)"
proof -
  let ?pfx = "basename (expand self os t)"
  from get_completions_yields [OF wt c] obtain fs where
    fs: "sorted_filenames self os (expand self os t) = Inr fs" and
    cin: "c \<in> set (fst (emit self os ?pfx fs))" by blast
  from set_sorted_filenames [OF fs] obtain dirs found where
    coll: "collect os ?pfx dirs = Inr found" and srt: "fs = sort_key snd found" by blast
  from emit_yields [OF cin] obtain d f where
    df: "(d, f) \<in> set fs" and
    ceq: "c = Completion (drop (length ?pfx) f) 0
                (Some (if os_path_isdir os (join d f) then f @ ''/'' else f)) None"
    by blast
  from df srt have "(d, f) \<in> set found" by simp
  from collect_found [OF coll this] obtain names where
    "os_listdir os d = Inr names" "f \<in> set names" "startswith f ?pfx" by blast
  moreover from ceq have "start_position c = 0" "ctext c = drop (length ?pfx) f"
    by (simp_all add: Completion_def)
  ultimately show ?thesis by blast
qed

theorem C1_insertion_text_at_offset_zero_witness:
  "working_text (completer_over [''/tmp'']) (typed_document ''/tmp/x/al'') = Inr ''/tmp/x/al'' \<and>
   \<lparr>ctext = ''pha.txt'', start_position = 0, display = ''alpha.txt'', display_meta = []\<rparr>
     \<in> set (fst (PathCompleter_get_completions (completer_over [''/tmp'']) tmp_os
                  (typed_document ''/tmp/x/al''))) \<and>
   (\<exists>directory names filename.
      os_listdir tmp_os directory = Inr names \<and> filename \<in> set names \<and>
      startswith filename (basename (expand (completer_over [''/tmp'']) tmp_os ''/tmp/x/al'')) \<and>
      ''pha.txt'' =
        drop (length (basename (expand (completer_over [''/tmp'']) tmp_os ''/tmp/x/al''))) filename)"
proof -
  have h1: "working_text (completer_over [''/tmp'']) (typed_document ''/tmp/x/al'') =
            Inr ''/tmp/x/al''"
    by (simp add: path_eval)
  have h2: "\<lparr>ctext = ''pha.txt'', start_position = 0, display = ''alpha.txt'', display_meta = []\<rparr>
     \<in> set (fst (PathCompleter_get_completions (completer_over [''/tmp'']) tmp_os
                  (typed_document ''/tmp/x/al'')))"
    by (simp add: path_eval tmp_os_def)
  from C1_insertion_text_at_offset_zero [OF h1 h2] h1 h2 show ?thesis by simp
qed

text \<open>
  Claim C1 as stated fails: for the typed text \<open>/tmp/x/al\<close> the prefix is \<open>al\<close>, the
  insertion texts are \<open>pha.txt\<close> and \<open>phabet\<close>, and both start positions are 0, not
  \<open>-2\<close>.
\<close>

theorem C1_start_position_counterexample:
  "map start_position (fst (PathCompleter_get_completions (completer_over [''/tmp'']) tmp_os
       (typed_document ''/tmp/x/al''))) = [0, 0] \<and>
   map ctext (fst (PathCompleter_get_completions (completer_over [''/tmp'']) tmp_os
       (typed_document ''/tmp/x/al''))) = [''pha.txt'', ''phabet''] \<and>
   - int (length (basename ''/tmp/x/al'')) = - 2"
  by (simp add: path_eval tmp_os_def)

text \<open>
  Claim C4, as the source has it. The \<open>try\<close> statement encloses the whole request: when
  listing one of the candidate directories raises, and the listing errors are
  \<open>OSError\<close>s, the request ends without a candidate and without an exception, whatever
  the other directories hold (the loop that yields starts only after every directory has
  been listed).
\<close>

theorem C4_listing_error_ends_request:
  assumes wt: "working_text self document = Inr t"
    and len: "\<not> int (length t) < min_input_len self"
    and dirs: "directories self os (expand self os t) = Inr dirs"
    and d: "d \<in> set dirs" "os_path_isdir os d" "os_listdir os d = Inl e"
    and os_errors: "\<forall>d'\<in>set dirs. \<forall>e'. os_listdir os d' = Inl e' \<longrightarrow> is_OSError e'"
  shows "PathCompleter_get_completions self os document = ([], None)"
proof -
  from collect_raises [OF d, of "basename (expand self os t)"] obtain e' d' where
    coll: "collect os (basename (expand self os t)) dirs = Inl e'" and
    "d' \<in> set dirs" "os_listdir os d' = Inl e'" by blast
  with os_errors have "is_OSError e'" by blast
  with wt len dirs coll show ?thesis
    by (simp add: PathCompleter_get_completions_def try_body_def sorted_filenames_def Let_def)
qed

theorem C4_listing_error_ends_request_witness:
  "working_text (completer_over [''/a'', ''/b'']) (typed_document ''x'') = Inr ''x'' \<and>
   \<not> int (length ''x'') < min_input_len (completer_over [''/a'', ''/b'']) \<and>
   directories (completer_over [''/a'', ''/b'']) ab_os
      (expand (completer_over [''/a'', ''/b'']) ab_os ''x'') = Inr [''/a'', ''/b''] \<and>
   ''/b'' \<in> set [''/a'', ''/b''] \<and> os_path_isdir ab_os ''/b'' \<and>
   os_listdir ab_os ''/b'' = Inl PermissionError \<and>
   os_listdir ab_os ''/a'' = Inr [''x1''] \<and>
   PathCompleter_get_completions (completer_over [''/a'', ''/b'']) ab_os (typed_document ''x'') =
     ([], None)"
proof -
  have h1: "working_text (completer_over [''/a'', ''/b'']) (typed_document ''x'') = Inr ''x''"
    by (simp add: path_eval)
  have h2: "\<not> int (length ''x'') < min_input_len (completer_over [''/a'', ''/b''])"
    by (simp add: path_eval)
  have h3: "directories (completer_over [''/a'', ''/b'']) ab_os
      (expand (completer_over [''/a'', ''/b'']) ab_os ''x'') = Inr [''/a'', ''/b'']"
    by (simp add: path_eval)
  have h4: "''/b'' \<in> set [''/a'', ''/b'']" by simp
  have h5: "os_path_isdir ab_os ''/b''" by (simp add: ab_os_def)
  have h6: "os_listdir ab_os ''/b'' = Inl PermissionError" by (simp add: ab_os_def)
  have h7: "\<forall>d'\<in>set [''/a'', ''/b'']. \<forall>e'. os_listdir ab_os d' = Inl e' \<longrightarrow> is_OSError e'"
    by (auto simp: ab_os_def)
  have h8: "os_listdir ab_os ''/a'' = Inr [''x1'']" by (simp add: ab_os_def)
  from C4_listing_error_ends_request [OF h1 h2 h3 h4 h5 h6 h7] h1 h2 h3 h4 h5 h6 h8
  show ?thesis by blast
qed

text \<open>
  Claim C4 as stated fails: with the search directories \<open>/a\<close> and \<open>/b\<close>, where listing
  \<open>/b\<close> raises PermissionError, the request for \<open>x\<close> yields nothing, although \<open>/a\<close>
  alone yields the candidate \<open>x1\<close>.
\<close>

theorem C4_other_directories_counterexample:
  "PathCompleter_get_completions (completer_over [''/a'', ''/b'']) ab_os (typed_document ''x'') =
     ([], None) \<and>
   os_listdir ab_os ''/b'' = Inl PermissionError \<and>
   PathCompleter_get_completions (completer_over [''/a'']) ab_os (typed_document ''x'') =
     ([\<lparr>ctext = ''1'', start_position = 0, display = ''x1'', display_meta = []\<rparr>], None)"
  by (simp add: path_eval ab_os_def)




text \<open>
  Claim C6, as the source has it. The completions of a request are in ascending order
  of the file name, which is the typed prefix followed by the insertion text, whatever
  directory each comes from; the display text is that file name, or that file name with
  the separator appended.
\<close>

theorem C6_sorted_by_filename:
  assumes wt: "working_text self document = Inr t"
  shows "sorted (map (\<lambda>c. basename (expand self os t) @ ctext c)
                  (fst (PathCompleter_get_completions self os document))) \<and>
         (\<forall>c\<in>set (fst (PathCompleter_get_completions self os document)).
            display c = basename (expand self os t) @ ctext c \<or>
            display c = basename (expand self os t) @ ctext c @ ''/'')"
proof
  let ?pfx = "basename (expand self os t)"
  let ?out = "fst (PathCompleter_get_completions self os document)"
  from get_completions_fst [OF wt, of os]
  show "sorted (map (\<lambda>c. ?pfx @ ctext c) ?out)"
  proof
    assume "?out = []"
    then show ?thesis by simp
  next
    assume "\<exists>fs. sorted_filenames self os (expand self os t) = Inr fs \<and>
                 ?out = fst (emit self os ?pfx fs)"
    then obtain fs where fs: "sorted_filenames self os (expand self os t) = Inr fs"
      and out: "?out = fst (emit self os ?pfx fs)" by blast
    from set_sorted_filenames [OF fs] obtain dirs found where
      coll: "collect os ?pfx dirs = Inr found" and srt: "fs = sort_key snd found" by blast
    have s: "sorted (map snd fs)" unfolding srt by simp
    have p: "\<forall>p\<in>set fs. startswith (snd p) ?pfx"
    proof
      fix p assume "p \<in> set fs"
      then have "(fst p, snd p) \<in> set found" using srt by simp
      from collect_found [OF coll this] show "startswith (snd p) ?pfx" by simp
    qed
    from emit_sorted [OF s p] show ?thesis unfolding out by blast
  qed
  show "\<forall>c\<in>set ?out. display c = ?pfx @ ctext c \<or> display c = ?pfx @ ctext c @ ''/''"
  proof
    fix c assume c: "c \<in> set ?out"
    from get_completions_yields [OF wt c] obtain fs where
      fs: "sorted_filenames self os (expand self os t) = Inr fs" and
      cin: "c \<in> set (fst (emit self os ?pfx fs))" by blast
    from set_sorted_filenames [OF fs] obtain dirs found where
      coll: "collect os ?pfx dirs = Inr found" and srt: "fs = sort_key snd found" by blast
    from emit_yields [OF cin] obtain d f where
      df: "(d, f) \<in> set fs" and
      ceq: "c = Completion (drop (length ?pfx) f) 0
                  (Some (if os_path_isdir os (join d f) then f @ ''/'' else f)) None"
      by blast
    from df srt have "(d, f) \<in> set found" by simp
    from collect_found [OF coll this] have "startswith f ?pfx" by simp
    then have key: "?pfx @ drop (length ?pfx) f = f"
      by (auto simp: startswith_def prefix_def)
    show "display c = ?pfx @ ctext c \<or> display c = ?pfx @ ctext c @ ''/''"
      using ceq key by (simp add: Completion_def)
  qed
qed

theorem C6_sorted_by_filename_witness:
  "working_text (completer_over [''/proj'']) (typed_document ''li'') = Inr ''li'' \<and>
   sorted (map (\<lambda>c. basename (expand (completer_over [''/proj'']) proj_os ''li'') @ ctext c)
             (fst (PathCompleter_get_completions (completer_over [''/proj'']) proj_os
                (typed_document ''li'')))) \<and>
   list_all (\<lambda>c. display c = basename (expand (completer_over [''/proj'']) proj_os ''li'') @ ctext c \<or>
      display c = basename (expand (completer_over [''/proj'']) proj_os ''li'') @ ctext c @ ''/'')
     (fst (PathCompleter_get_completions (completer_over [''/proj'']) proj_os
             (typed_document ''li'')))"
proof -
  have h: "working_text (completer_over [''/proj'']) (typed_document ''li'') = Inr ''li''"
    by (simp add: path_eval)
  from C6_sorted_by_filename [OF h, of proj_os] h show ?thesis
    by (simp only: list_all_iff) blast
qed

text \<open>
  Claim C6 as stated fails: \<open>/proj\<close> holds the directory \<open>lib\<close> and the file
  \<open>lib.txt\<close>; for the typed text \<open>li\<close> the display texts come out as \<open>lib/\<close>, then
  \<open>lib.txt\<close>, which is not ascending, since the full stop sorts before the slash.
\<close>

theorem C6_display_text_not_sorted_counterexample:
  "map display (fst (PathCompleter_get_completions (completer_over [''/proj'']) proj_os
       (typed_document ''li''))) = [''lib/'', ''lib.txt''] \<and>
   \<not> sorted [''lib/'', ''lib.txt'' :: string]"
  by (simp add: path_eval proj_os_def)

section \<open>The working text\<close>

lemma split_ws_no_space:
  "\<forall>c\<in>set s. \<not> isspace c \<Longrightarrow>
     split_ws cur s = (if cur = [] \<and> s = [] then [] else [rev cur @ s])"
  by (induction s arbitrary: cur) auto

lemma py_split_no_space:
  "s \<noteq> [] \<Longrightarrow> \<forall>c\<in>set s. \<not> isspace c \<Longrightarrow> py_split s = [s]"
  by (simp add: py_split_def split_ws_no_space)

lemma split_ws_pieces_nonempty: "t \<in> set (split_ws cur s) \<Longrightarrow> t \<noteq> []"
  by (induction s arbitrary: cur) (auto split: if_splits)

lemma special_not_alnum: "re_special c \<Longrightarrow> \<not> is_alnum c"
  by (auto simp: re_special_def is_alnum_def)

lemma class_items_escaped_char:
  assumes "rest \<noteq> []"
  shows "class_items started ((if re_special c then [backslash, c] else [c]) @ rest) =
         map_option ((#) c) (class_items True rest)"
proof (cases "re_special c")
  case True
  then have "\<not> is_alnum c" by (rule special_not_alnum)
  with True show ?thesis by (cases started) (auto simp: re_special_def)
next
  case False
  then have c: "c \<noteq> CHR '']''" "c \<noteq> backslash" "c \<noteq> CHR ''-''" "c \<noteq> CHR ''^''"
    by (auto simp: re_special_def)
  from assms obtain d ds where "rest = d # ds" by (cases rest) auto
  with False c show ?thesis by simp
qed

lemma class_items_escape:
  assumes "rest \<noteq> []"
  shows "class_items started (re_escape s @ rest) =
         map_option ((@) s) (class_items (started \<or> s \<noteq> []) rest)"
proof (induction s arbitrary: started)
  case Nil
  show ?case by (simp add: re_escape_def option.map_ident)
next
  case (Cons c s)
  have ne: "re_escape s @ rest \<noteq> []" using assms by simp
  have "class_items started (re_escape (c # s) @ rest) =
        class_items started ((if re_special c then [backslash, c] else [c]) @ (re_escape s @ rest))"
    by (simp add: re_escape_def)
  also have "\<dots> = map_option ((#) c) (class_items True (re_escape s @ rest))"
    by (rule class_items_escaped_char [OF ne])
  also have "\<dots> = map_option ((#) c) (map_option ((@) s) (class_items True rest))"
    by (simp add: Cons.IH)
  finally show ?case by (simp add: option.map_comp comp_def)
qed

lemma class_items_bar:
  "rest \<noteq> [] \<Longrightarrow>
     class_items started (CHR ''|'' # rest) = map_option ((#) (CHR ''|'')) (class_items True rest)"
  by (cases rest) auto

lemma class_items_joined:
  "\<forall>x\<in>set (t # ts). x \<noteq> [] \<Longrightarrow>
     class_items started (str_join ''|'' (map re_escape (t # ts)) @ '']'') =
       Some (str_join ''|'' (t # ts))"
proof (induction ts arbitrary: t started)
  case Nil
  then show ?case by (simp add: class_items_escape)
next
  case (Cons u us)
  from Cons.prems have t: "t \<noteq> []" and rest: "\<forall>x\<in>set (u # us). x \<noteq> []" by simp_all
  have "class_items started (str_join ''|'' (map re_escape (t # u # us)) @ '']'') =
        class_items started
          (re_escape t @ (CHR ''|'' # str_join ''|'' (map re_escape (u # us)) @ '']''))"
    by simp
  also have "\<dots> = map_option ((@) t)
       (class_items (started \<or> t \<noteq> [])
          (CHR ''|'' # str_join ''|'' (map re_escape (u # us)) @ '']''))"
    by (rule class_items_escape) simp
  also have "\<dots> = map_option ((@) t) (map_option ((#) (CHR ''|''))
       (class_items True (str_join ''|'' (map re_escape (u # us)) @ '']'')))"
    by (simp add: class_items_bar del: str_join.simps list.map)
  also have "\<dots> = Some (t @ CHR ''|'' # str_join ''|'' (u # us))"
    by (simp only: Cons.IH [OF rest] option.map)
  finally show ?case by simp
qed

text \<open>
  The character class of the completer's pattern, for every delimiter string: there is
  none (\<open>re.error\<close>) when the string has no character besides whitespace, and otherwise
  the class holds the characters of the whitespace-separated pieces and, when there are
  several pieces, the bar that joins them.
\<close>

lemma regexPattern_class:
  "re_class (regexPattern delims) =
     (if py_split delims = [] then None else Some (str_join ''|'' (py_split delims)))"
proof (cases "py_split delims")
  case Nil
  then show ?thesis by (simp add: re_class_def regexPattern_def)
next
  case (Cons t ts)
  have "\<forall>x\<in>set (t # ts). x \<noteq> []"
    using Cons split_ws_pieces_nonempty [of _ "[]" delims] by (auto simp: py_split_def)
  from class_items_joined [OF this, of False] Cons show ?thesis
    by (simp add: re_class_def regexPattern_def del: str_join.simps list.map)
qed

lemma working_text_delimiters:
  assumes "delimiters self = Some delims"
  shows "working_text self document =
           (if py_split delims = [] then Inl re_error
            else Inr (py_strip (last (split_at (\<lambda>c. c \<in> set (str_join ''|'' (py_split delims)))
                                        (py_strip (text_before_cursor document))))))"
  using assms by (simp add: working_text_def regexPattern_class)

text \<open>The last segment is the longest end of the text without a split character.\<close>

lemma length_split_at: "length (split_at P s) = Suc (length (filter P s))"
  by (induction s) (auto split: list.splits)

lemma last_split_at: "last (split_at P s) = rev (takeWhile (\<lambda>c. \<not> P c) (rev s))"
proof (induction s)
  case Nil
  show ?case by simp
next
  case (Cons c s)
  have ne: "split_at P s \<noteq> []" using length_split_at [of P s] by auto
  show ?case
  proof (cases "P c")
    case True
    with ne Cons show ?thesis
      by (auto simp: takeWhile_append)
  next
    case False
    obtain seg segs where sp: "split_at P s = seg # segs" using ne by (cases "split_at P s") auto
    show ?thesis
    proof (cases segs)
      case Nil
      with sp length_split_at [of P s] have "filter P s = []" by simp
      then have all: "\<forall>x\<in>set s. \<not> P x" by (simp add: filter_empty_conv)
      then have "takeWhile (\<lambda>c. \<not> P c) (rev s) = rev s" by simp
      with Cons.IH sp Nil have "seg = s" by simp
      with sp Nil False all show ?thesis by (simp add: takeWhile_append)
    next
      case more: (Cons seg' segs')
      with sp length_split_at [of P s] have "filter P s \<noteq> []" by auto
      then have ex: "\<exists>x\<in>set s. P x" by (simp add: filter_empty_conv)
      from sp more False have "last (split_at P (c # s)) = last (split_at P s)" by simp
      with Cons.IH ex show ?thesis by (auto simp: takeWhile_append)
    qed
  qed
qed

text \<open>
  Claim C2, as the source has it for a delimiter string without whitespace. When the
  configured delimiter string is not empty and holds no whitespace character, the
  working text is the last segment, trimmed, of the trimmed text before the cursor
  split at every character of the delimiter string and at no other character. The last
  segment is taken as it is: it is empty when the trimmed text ends with a delimiter.
\<close>

theorem C2_working_text_last_segment:
  assumes d: "delimiters self = Some delims" and ne: "delims \<noteq> []"
    and nospace: "\<forall>c\<in>set delims. \<not> isspace c"
  shows "working_text self document =
           Inr (py_strip (last (split_at (\<lambda>c. c \<in> set delims)
                                  (py_strip (text_before_cursor document)))))"
proof -
  have "py_split delims = [delims]" using ne nospace by (rule py_split_no_space)
  then have "re_class (regexPattern delims) = Some delims"
    by (simp add: regexPattern_class)
  with d show ?thesis by (simp add: working_text_def)
qed

theorem C2_working_text_last_segment_witness:
  "delimiters (delimited_completer '';,'') = Some '';,'' \<and> '';,'' \<noteq> [] \<and>
   list_all (\<lambda>c. \<not> isspace c) '';,'' \<and>
   working_text (delimited_completer '';,'') (typed_document ''ls a;b c'') =
     Inr (py_strip (last (split_at (\<lambda>c. c \<in> set '';,'')
                            (py_strip (text_before_cursor (typed_document ''ls a;b c'')))))) \<and>
   py_strip (last (split_at (\<lambda>c. c \<in> set '';,'')
                            (py_strip (text_before_cursor (typed_document ''ls a;b c''))))) = ''b c''"
proof -
  have h1: "delimiters (delimited_completer '';,'') = Some '';,''"
    by (simp add: delimited_completer_def PathCompleter_init_def)
  have h2: "'';,'' \<noteq> []" by simp
  have h3: "\<forall>c\<in>set '';,''. \<not> isspace c" by (simp add: isspace_def)
  have v: "py_strip (last (split_at (\<lambda>c. c \<in> set '';,'')
                            (py_strip (text_before_cursor (typed_document ''ls a;b c''))))) = ''b c''"
    by (simp add: typed_document_def py_strip_def isspace_def)
  have h3': "list_all (\<lambda>c. \<not> isspace c) '';,''" by (simp add: isspace_def)
  from C2_working_text_last_segment [OF h1 h2 h3, of "typed_document ''ls a;b c''"] h1 h2 h3' v
  show ?thesis by blast
qed

text \<open>
  Claim C2 as stated fails. With the delimiter \<open>;\<close> and the typed text \<open>a;\<close> the
  working text is the empty last segment, where the last non-empty segment is \<open>a\<close>.
  With the delimiter string \<open>' \t\n;,'\<close> that \<open>text.py\<close> passes and the typed text
  \<open>ls foo\<close>, the working text is \<open>ls foo\<close>: the space of the delimiter string is no
  split point, since \<open>self.delimiters.split()\<close> drops the whitespace of the string.
\<close>

theorem C2_working_text_counterexample:
  "working_text (delimited_completer '';'') (typed_document ''a;'') = Inr [] \<and>
   spec_working_text '';'' ''a;'' = ''a'' \<and>
   working_text (delimited_completer text_delimiters) (typed_document ''ls foo'') = Inr ''ls foo'' \<and>
   spec_working_text text_delimiters ''ls foo'' = ''foo''"
  by code_simp

section \<open>Properties of the ExecutableCompleter and of the text prompt\<close>

text \<open>
  Claim C3, as the source has it. With \<open>path_autocomplete\<close> false and
  \<open>exec_autocomplete\<close> true, \<open>text\<close> raises TypeError when it constructs the completer:
  it passes the keyword argument \<open>delimiters\<close> to \<open>ExecutableCompleter\<close>, whose
  constructor takes none.
\<close>

theorem C3_exec_autocomplete_raises_TypeError:
  "text_prompt False True custom_autocomplete = Inl TypeError"
  by (simp add: text_prompt_def ExecutableCompleter_init_def)

text \<open>
  Claim C3 as stated fails: \<open>path_autocomplete\<close> is tested first, so with both
  arguments true \<open>text\<close> builds a PathCompleter and no TypeError is raised.
\<close>

theorem C3_path_autocomplete_first_counterexample:
  "text_prompt True True None \<noteq> Inl TypeError"
  by (simp add: text_prompt_def)

text \<open>
  Claim C10, as the source has it. The search paths of an ExecutableCompleter are
  computed from the value that \<open>PATH\<close> has when \<open>get_paths\<close> is called, in each
  request. When \<open>PATH\<close> is unset or empty, a request whose tilde-expanded, trimmed text
  has no directory part yields no candidate and raises nothing (the empty path not
  being a directory).
\<close>

theorem C10_PATH_read_at_call_time:
  assumes ec: "ExecutableCompleter_init [] = Inr ec"
  shows "get_paths ec os =
           Inr (split_at (\<lambda>c. c = CHR '':'')
                  (case os_environ os ''PATH'' of None \<Rightarrow> [] | Some v \<Rightarrow> v)) \<and>
         ((os_environ os ''PATH'' = None \<or> os_environ os ''PATH'' = Some []) \<and>
          \<not> os_path_isdir os [] \<and>
          dirname (os_path_expanduser os (py_strip (text_before_cursor document))) = [] \<longrightarrow>
            PathCompleter_get_completions ec os document = ([], None))"
proof (intro conjI impI)
  from ec have ec_eq: "ec = ExecutableCompleter_attributes"
    by (simp add: ExecutableCompleter_init_def)
  show gp: "get_paths ec os =
           Inr (split_at (\<lambda>c. c = CHR '':'')
                  (case os_environ os ''PATH'' of None \<Rightarrow> [] | Some v \<Rightarrow> v))"
    by (simp add: ec_eq ExecutableCompleter_attributes_def PathCompleter_init_def)
  assume h: "(os_environ os ''PATH'' = None \<or> os_environ os ''PATH'' = Some []) \<and>
          \<not> os_path_isdir os [] \<and>
          dirname (os_path_expanduser os (py_strip (text_before_cursor document))) = []"
  then have paths: "get_paths ec os = Inr [[]]"
    using gp by auto
  have wt: "working_text ec document = Inr (py_strip (text_before_cursor document))"
    by (simp add: ec_eq ExecutableCompleter_attributes_def PathCompleter_init_def working_text_def)
  have ex: "expand ec os (py_strip (text_before_cursor document)) =
            os_path_expanduser os (py_strip (text_before_cursor document))"
    by (simp add: ec_eq ExecutableCompleter_attributes_def PathCompleter_init_def expand_def)
  have dirs: "directories ec os (os_path_expanduser os (py_strip (text_before_cursor document)))
              = Inr [[]]"
    using h paths by (simp add: directories_def)
  have "sorted_filenames ec os (os_path_expanduser os (py_strip (text_before_cursor document)))
        = Inr []"
    using h dirs by (simp add: sorted_filenames_def)
  then show "PathCompleter_get_completions ec os document = ([], None)"
    using wt ex by (simp add: PathCompleter_get_completions_def try_body_def)
qed

theorem C10_PATH_read_at_call_time_witness:
  "ExecutableCompleter_init [] = Inr ExecutableCompleter_attributes \<and>
   get_paths ExecutableCompleter_attributes bin_os =
           Inr (split_at (\<lambda>c. c = CHR '':'')
                  (case os_environ bin_os ''PATH'' of None \<Rightarrow> [] | Some v \<Rightarrow> v)) \<and>
   (os_environ bin_os ''PATH'' = None \<or> os_environ bin_os ''PATH'' = Some []) \<and>
   \<not> os_path_isdir bin_os [] \<and>
   dirname (os_path_expanduser bin_os (py_strip (text_before_cursor (typed_document ''l'')))) = [] \<and>
   PathCompleter_get_completions ExecutableCompleter_attributes bin_os (typed_document ''l'') = ([], None)"
proof -
  have h: "ExecutableCompleter_init [] = Inr ExecutableCompleter_attributes"
    by (simp add: ExecutableCompleter_init_def ExecutableCompleter_attributes_def)
  have g: "(os_environ bin_os ''PATH'' = None \<or> os_environ bin_os ''PATH'' = Some []) \<and>
   \<not> os_path_isdir bin_os [] \<and>
   dirname (os_path_expanduser bin_os (py_strip (text_before_cursor (typed_document ''l'')))) = []"
    by (simp add: bin_os_def typed_document_def py_strip_def isspace_def dirname_def)
  from C10_PATH_read_at_call_time [OF h, of bin_os "typed_document ''l''"] h g
  show ?thesis by blast
qed

text \<open>
  Claim C10 as stated fails: with \<open>PATH\<close> unset the only search path is the empty
  string, and joining it with a text that has a directory part gives that text back;
  for the typed text \<open>/bin/l\<close> the request yields the candidate \<open>ls\<close> of \<open>/bin\<close>.
\<close>

theorem C10_unset_PATH_counterexample:
  "ExecutableCompleter_init [] = Inr ExecutableCompleter_attributes \<and>
   os_environ bin_os ''PATH'' = None \<and>
   PathCompleter_get_completions ExecutableCompleter_attributes bin_os (typed_document ''/bin/l'') =
     ([\<lparr>ctext = ''s'', start_position = 0, display = ''ls'', display_meta = []\<rparr>], None)"
  by (simp add: ExecutableCompleter_init_def ExecutableCompleter_attributes_def path_eval bin_os_def)

end
